theory Spec2Isabelle
  imports Main "HOL-Library.Char_ord" "HOL-Library.List_Lexorder" "HOL-Library.Multiset"
begin

section \<open>Patient management: validators, schema migration and record store\<close>

text \<open>
  A shallow embedding of \<^verbatim>\<open>crudapp.py\<close>. Python \<^verbatim>\<open>str\<close> values are HOL strings,
  \<^verbatim>\<open>None\<close> is \<open>None\<close>, and the SQLite table \<^verbatim>\<open>patients\<close> is a record holding the
  column names, the rows and the AUTOINCREMENT counter. Every SQL statement the program
  sends is a function on that record.
\<close>

subsection \<open>Validation functions (lines 157 to 165)\<close>

text \<open>
  Both validators call \<^verbatim>\<open>re.match(pattern, s) is not None\<close>. The two patterns are
  sequences of anchors and quantified character classes, so a pattern is a list of items:
  \<^verbatim>\<open>^\<close>, \<^verbatim>\<open>$\<close>, or a class with its bounds \<^verbatim>\<open>{m,n}\<close> (\<open>None\<close> for no upper
  bound; \<^verbatim>\<open>?\<close> is \<^verbatim>\<open>{0,1}\<close>, \<^verbatim>\<open>+\<close> is \<^verbatim>\<open>{1,}\<close>, a single character is
  \<^verbatim>\<open>{1,1}\<close>). A class is a list of inclusive character ranges. Characters are the 256
  characters of HOL, read as the code points 0 to 255 and ordered by their code. Among them
  \<^verbatim>\<open>\d\<close> is \<^verbatim>\<open>0\<close> to \<^verbatim>\<open>9\<close>; in Python it also matches the decimal digits of
  other scripts, all of them code points above 255, which no string here contains.
\<close>

type_synonym char_class = "(char \<times> char) list"

datatype item = Caret | Dollar | Rep char_class nat "nat option"

definition in_class :: "char_class \<Rightarrow> char \<Rightarrow> bool" where
  "in_class cls c = list_ex (\<lambda>(lo, hi). lo \<le> c \<and> c \<le> hi) cls"

text \<open>
  \<open>re_match_at p k s\<close>: pattern \<open>p\<close> matches when \<open>k\<close> characters have been consumed and
  \<open>s\<close> is the rest of the subject. \<^verbatim>\<open>re.match\<close> starts at position 0 and does not ask
  the match to reach the end of the subject. Without \<^verbatim>\<open>re.MULTILINE\<close>, \<^verbatim>\<open>^\<close> holds at
  position 0 only, and \<^verbatim>\<open>$\<close> holds at the end of the subject and also just before a
  newline that is the subject's last character. A quantified class may consume any number
  \<open>j\<close> of characters within its bounds, all of them in the class; the matcher backtracks
  over every such \<open>j\<close>.
\<close>

definition at_dollar :: "string \<Rightarrow> bool" where
  "at_dollar s = (s = [] \<or> s = [CHR 0x0A])"

definition rep_counts :: "char_class \<Rightarrow> nat \<Rightarrow> nat option \<Rightarrow> string \<Rightarrow> nat list" where
  "rep_counts cls m mx s =
     (let run = length (takeWhile (in_class cls) s);
          hi = (case mx of None \<Rightarrow> run | Some n \<Rightarrow> min n run)
      in rev [m ..< Suc hi])"

fun re_match_at :: "item list \<Rightarrow> nat \<Rightarrow> string \<Rightarrow> bool" where
  "re_match_at [] k s = True"
| "re_match_at (Caret # p) k s = (k = 0 \<and> re_match_at p k s)"
| "re_match_at (Dollar # p) k s = (at_dollar s \<and> re_match_at p k s)"
| "re_match_at (Rep cls m mx # p) k s =
     list_ex (\<lambda>j. re_match_at p (k + j) (drop j s)) (rep_counts cls m mx s)"

definition re_match :: "item list \<Rightarrow> string \<Rightarrow> bool" where
  "re_match p s = re_match_at p 0 s"

definition upper_az :: char_class where "upper_az = [(CHR ''A'', CHR ''Z'')]"
definition lower_az :: char_class where "lower_az = [(CHR ''a'', CHR ''z'')]"
definition digit :: char_class where "digit = [(CHR ''0'', CHR ''9'')]"
definition single :: "char \<Rightarrow> char_class" where "single c = [(c, c)]"

text \<open>\<^verbatim>\<open>^[A-Za-z0-9._%+-]+@[A-Za-z0-9.-]+\.[A-Za-z]{2,}$\<close>\<close>

definition email_local :: char_class where
  "email_local = upper_az @ lower_az @ digit @ single CHR ''.'' @ single CHR ''_''
     @ single CHR ''%'' @ single CHR ''+'' @ single CHR ''-''"

definition email_domain :: char_class where
  "email_domain = upper_az @ lower_az @ digit @ single CHR ''.'' @ single CHR ''-''"

definition alpha :: char_class where
  "alpha = upper_az @ lower_az"

definition email_pattern :: "item list" where
  "email_pattern =
     [Caret, Rep email_local 1 None, Rep (single CHR ''@'') 1 (Some 1),
      Rep email_domain 1 None, Rep (single CHR ''.'') 1 (Some 1), Rep alpha 2 None, Dollar]"

definition is_valid_email :: "string \<Rightarrow> bool" where
  "is_valid_email s = re_match email_pattern s"

text \<open>\<^verbatim>\<open>^\+?\d{10,15}$\<close>\<close>

definition phone_pattern :: "item list" where
  "phone_pattern = [Caret, Rep (single CHR ''+'') 0 (Some 1), Rep digit 10 (Some 15), Dollar]"

definition is_valid_phone :: "string \<Rightarrow> bool" where
  "is_valid_phone s = re_match phone_pattern s"

subsection \<open>The table and its rows (lines 15 to 31)\<close>

text \<open>
  A row has the columns of \<^verbatim>\<open>CREATE TABLE patients\<close> and the two date columns added by
  the migration. The columns declared \<^verbatim>\<open>NOT NULL\<close> (\<^verbatim>\<open>first_name\<close>, \<^verbatim>\<open>last_name\<close>,
  \<^verbatim>\<open>email\<close>) hold a string; the nullable ones hold \<open>None\<close> for SQL \<^verbatim>\<open>NULL\<close>. The key
  \<^verbatim>\<open>id\<close> is \<open>pid\<close> here. Ids are natural numbers: the program never supplies one, so
  they count up from 1, and the largest id SQLite can store is out of their reach.

  The table keeps the names of its columns (what \<^verbatim>\<open>PRAGMA table_info\<close> lists), its rows
  and \<open>seq\<close>, the largest id ever issued (the \<^verbatim>\<open>sqlite_sequence\<close> entry that
  \<^verbatim>\<open>AUTOINCREMENT\<close> maintains). While a date column is not in \<open>columns\<close>, the field of
  that name in a row carries no information.
\<close>

record patient =
  pid :: nat
  first_name :: string
  last_name :: string
  address :: "string option"
  email :: string
  phone :: "string option"
  date_of_birth :: "string option"
  date_of_entry :: "string option"

record table =
  columns :: "string list"
  rows :: "patient list"
  seq :: nat

text \<open>
  The outcome of one \<^verbatim>\<open>execute\<close>: the statement ran, or the connector raised
  \<^verbatim>\<open>sqlite3.IntegrityError\<close> with a message (a constraint failed), or it raised
  \<^verbatim>\<open>sqlite3.OperationalError\<close> (the statement names a column the table lacks).
\<close>

datatype sql_result = Done table | IntegrityError string | OperationalError

text \<open>
  What \<^verbatim>\<open>add_patient\<close> and \<^verbatim>\<open>update_patient\<close> hand to their caller: the pair
  \<^verbatim>\<open>(success, error)\<close>, or an exception that their \<^verbatim>\<open>except\<close> clause does not catch.
\<close>

datatype py_outcome = Return bool "string option" | Raised_OperationalError

definition created_columns :: "string list" where
  "created_columns = [''id'', ''first_name'', ''last_name'', ''address'', ''email'', ''phone'']"

definition written_columns :: "string list" where
  "written_columns = [''first_name'', ''last_name'', ''address'', ''email'', ''phone'',
     ''date_of_birth'', ''date_of_entry'']"

definition has_columns :: "table \<Rightarrow> string list \<Rightarrow> bool" where
  "has_columns t cs = list_all (\<lambda>c. c \<in> set (columns t)) cs"

text \<open>\<^verbatim>\<open>x in s\<close> on Python strings: \<open>x\<close> occurs in \<open>s\<close> as a contiguous substring.\<close>

fun py_in :: "string \<Rightarrow> string \<Rightarrow> bool" where
  "py_in x [] = (x = [])"
| "py_in x (c # cs) = (take (length x) (c # cs) = x \<or> py_in x cs)"

text \<open>\<^verbatim>\<open>ORDER BY id DESC\<close>.\<close>

definition order_by_id_desc :: "patient list \<Rightarrow> patient list" where
  "order_by_id_desc rs = rev (sort_key pid rs)"

subsection \<open>Schema creation and migration (lines 15 to 55)\<close>

text \<open>
  \<^verbatim>\<open>ALTER TABLE patients ADD COLUMN c TEXT\<close>: the column is appended and is \<^verbatim>\<open>NULL\<close> in
  every row already stored.
\<close>

definition clear_column :: "string \<Rightarrow> patient \<Rightarrow> patient" where
  "clear_column c r =
     (if c = ''date_of_birth'' then r\<lparr>date_of_birth := None\<rparr>
      else if c = ''date_of_entry'' then r\<lparr>date_of_entry := None\<rparr>
      else r)"

definition add_column :: "string \<Rightarrow> table \<Rightarrow> table" where
  "add_column c t = t\<lparr>columns := columns t @ [c], rows := map (clear_column c) (rows t)\<rparr>"

text \<open>\<^verbatim>\<open>UPDATE patients SET date_of_entry = ? WHERE date_of_entry IS NULL\<close>.\<close>

definition backfill_date_of_entry :: "string \<Rightarrow> table \<Rightarrow> table" where
  "backfill_date_of_entry today_iso t =
     t\<lparr>rows := map (\<lambda>r. if date_of_entry r = None then r\<lparr>date_of_entry := Some today_iso\<rparr> else r)
                    (rows t)\<rparr>"

text \<open>
  \<open>migrate_db\<close> reads the column names once, adds each missing date column, then
  backfills. \<open>today_iso\<close> is \<^verbatim>\<open>datetime.date.today().isoformat()\<close>. By the time the
  backfill runs the column \<^verbatim>\<open>date_of_entry\<close> exists, so the \<^verbatim>\<open>UPDATE\<close> cannot fail and
  the \<^verbatim>\<open>except\<close> clause around it is never entered.
\<close>

definition migrate_db :: "string \<Rightarrow> table \<Rightarrow> table" where
  "migrate_db today_iso t =
     (let existing_cols = set (columns t);
          t1 = (if ''date_of_birth'' \<notin> existing_cols then add_column ''date_of_birth'' t else t);
          t2 = (if ''date_of_entry'' \<notin> existing_cols then add_column ''date_of_entry'' t1 else t1)
      in backfill_date_of_entry today_iso t2)"

text \<open>
  \<open>init_db\<close>: \<^verbatim>\<open>CREATE TABLE IF NOT EXISTS\<close> makes an empty six-column table when the
  database has none (\<open>None\<close>) and leaves an existing table alone; then the migration runs.
\<close>

definition create_table_if_not_exists :: "table option \<Rightarrow> table" where
  "create_table_if_not_exists db =
     (case db of None \<Rightarrow> \<lparr>columns = created_columns, rows = [], seq = 0\<rparr> | Some t \<Rightarrow> t)"

definition init_db :: "string \<Rightarrow> table option \<Rightarrow> table" where
  "init_db today_iso db = migrate_db today_iso (create_table_if_not_exists db)"

subsection \<open>Record store: insert, read, update, delete (lines 57 to 113)\<close>

text \<open>
  \<^verbatim>\<open>AUTOINCREMENT\<close> gives a new row an id one above the largest id ever issued: above
  every id in the table and above \<open>seq\<close>, so the id of a deleted row does not come back.
\<close>

primrec max_id :: "patient list \<Rightarrow> nat" where
  "max_id [] = 0"
| "max_id (r # rs) = max (pid r) (max_id rs)"

definition next_rowid :: "table \<Rightarrow> nat" where
  "next_rowid t = Suc (max (seq t) (max_id (rows t)))"

definition unique_email_failed :: string where
  "unique_email_failed = ''UNIQUE constraint failed: patients.email''"

text \<open>
  \<^verbatim>\<open>INSERT INTO patients (first_name, ..., date_of_entry) VALUES (?, ..., ?)\<close>. The
  statement does not compile when the table lacks one of the named columns; the
  \<^verbatim>\<open>UNIQUE\<close> index on \<^verbatim>\<open>email\<close> rejects an email that a stored row has (the column
  compares byte for byte); otherwise the row is stored under the next id.
\<close>

definition sql_insert ::
  "table \<Rightarrow> string \<Rightarrow> string \<Rightarrow> string option \<Rightarrow> string \<Rightarrow> string option
     \<Rightarrow> string option \<Rightarrow> string option \<Rightarrow> sql_result" where
  "sql_insert t fn ln addr em ph dob doe =
     (if \<not> has_columns t written_columns then OperationalError
      else if list_ex (\<lambda>r. email r = em) (rows t) then IntegrityError unique_email_failed
      else Done (t\<lparr>rows := rows t @
                       [\<lparr>pid = next_rowid t, first_name = fn, last_name = ln, address = addr,
                         email = em, phone = ph, date_of_birth = dob, date_of_entry = doe\<rparr>],
                    seq := next_rowid t\<rparr>))"

text \<open>
  \<^verbatim>\<open>add_patient\<close> and \<^verbatim>\<open>update_patient\<close> wrap their statement in the same
  \<^verbatim>\<open>try\<close> block, written once here: commit and return
  \<^verbatim>\<open>(True, None)\<close>; on \<^verbatim>\<open>IntegrityError\<close> return \<^verbatim>\<open>(False, message)\<close> and leave the
  table as it was (nothing is committed); any other exception leaves the function.
\<close>

definition on_result :: "table \<Rightarrow> sql_result \<Rightarrow> table \<times> py_outcome" where
  "on_result t res =
     (case res of
        Done t' \<Rightarrow> (t', Return True None)
      | IntegrityError e \<Rightarrow>
          (if py_in unique_email_failed e then (t, Return False (Some ''Email already exists.''))
           else (t, Return False (Some e)))
      | OperationalError \<Rightarrow> (t, Raised_OperationalError))"

definition add_patient ::
  "table \<Rightarrow> string \<Rightarrow> string \<Rightarrow> string option \<Rightarrow> string \<Rightarrow> string option
     \<Rightarrow> string option \<Rightarrow> string option \<Rightarrow> table \<times> py_outcome" where
  "add_patient t fn ln addr em ph dob doe = on_result t (sql_insert t fn ln addr em ph dob doe)"

text \<open>\<^verbatim>\<open>SELECT * FROM patients ORDER BY id DESC\<close>, \<^verbatim>\<open>fetchall\<close>.\<close>

definition get_all_patients :: "table \<Rightarrow> patient list" where
  "get_all_patients t = order_by_id_desc (rows t)"

text \<open>\<^verbatim>\<open>SELECT * FROM patients WHERE id=?\<close>, \<^verbatim>\<open>fetchone\<close>: the row, or \<^verbatim>\<open>None\<close>.\<close>

definition get_patient_by_id :: "table \<Rightarrow> nat \<Rightarrow> patient option" where
  "get_patient_by_id t patient_id =
     (case filter (\<lambda>r. pid r = patient_id) (rows t) of [] \<Rightarrow> None | r # _ \<Rightarrow> Some r)"

text \<open>
  \<^verbatim>\<open>UPDATE patients SET first_name=?, ..., date_of_entry=? WHERE id=?\<close>. When no row has
  the id the statement changes nothing and checks no constraint. When a row has it, the
  \<^verbatim>\<open>UNIQUE\<close> index rejects an email held by a row with another id.
\<close>

definition sql_update ::
  "table \<Rightarrow> nat \<Rightarrow> string \<Rightarrow> string \<Rightarrow> string option \<Rightarrow> string \<Rightarrow> string option
     \<Rightarrow> string option \<Rightarrow> string option \<Rightarrow> sql_result" where
  "sql_update t patient_id fn ln addr em ph dob doe =
     (if \<not> has_columns t (written_columns @ [''id'']) then OperationalError
      else if list_ex (\<lambda>r. pid r = patient_id) (rows t)
              \<and> list_ex (\<lambda>r. pid r \<noteq> patient_id \<and> email r = em) (rows t)
        then IntegrityError unique_email_failed
      else Done (t\<lparr>rows := map (\<lambda>r. if pid r = patient_id
                                    then r\<lparr>first_name := fn, last_name := ln, address := addr,
                                           email := em, phone := ph, date_of_birth := dob,
                                           date_of_entry := doe\<rparr>
                                    else r) (rows t)\<rparr>))"

definition update_patient ::
  "table \<Rightarrow> nat \<Rightarrow> string \<Rightarrow> string \<Rightarrow> string option \<Rightarrow> string \<Rightarrow> string option
     \<Rightarrow> string option \<Rightarrow> string option \<Rightarrow> table \<times> py_outcome" where
  "update_patient t patient_id fn ln addr em ph dob doe =
     on_result t (sql_update t patient_id fn ln addr em ph dob doe)"

text \<open>\<^verbatim>\<open>DELETE FROM patients WHERE id=?\<close>.\<close>

definition delete_patient :: "table \<Rightarrow> nat \<Rightarrow> table" where
  "delete_patient t patient_id = t\<lparr>rows := filter (\<lambda>r. pid r \<noteq> patient_id) (rows t)\<rparr>"

subsection \<open>Search (lines 115 to 134)\<close>

text \<open>
  SQLite's \<^verbatim>\<open>LIKE\<close>: in the pattern \<^verbatim>\<open>%\<close> stands for any run of characters and
  \<^verbatim>\<open>_\<close> for any one character; every other character stands for itself, with the
  ASCII letters compared without regard to case. The pattern comes first, the text second.
\<close>

definition sql_lower :: "char \<Rightarrow> char" where
  "sql_lower c = (if CHR ''A'' \<le> c \<and> c \<le> CHR ''Z'' then char_of (of_char c + (32::nat)) else c)"

fun sql_like :: "string \<Rightarrow> string \<Rightarrow> bool" where
  "sql_like [] t = (t = [])"
| "sql_like (p # ps) [] = (p = CHR ''%'' \<and> sql_like ps [])"
| "sql_like (p # ps) (c # cs) =
     (if p = CHR ''%'' then sql_like ps (c # cs) \<or> sql_like (p # ps) cs
      else if p = CHR ''_'' then sql_like ps cs
      else sql_lower p = sql_lower c \<and> sql_like ps cs)"

text \<open>
  The function behind the operator reads both operands as C strings: each ends at its
  first NUL character, whatever follows. Before it compares, it refuses a pattern of more
  than 50000 bytes with the error \<^verbatim>\<open>LIKE or GLOB pattern too complex\<close>, which the
  connector raises as \<^verbatim>\<open>sqlite3.OperationalError\<close>. The length is that of the whole
  pattern in UTF-8: one byte for a character below 128, two for the others that a HOL
  character can be.
\<close>

definition c_string :: "string \<Rightarrow> string" where
  "c_string s = takeWhile (\<lambda>c. c \<noteq> CHR 0x00) s"

definition utf8_length :: "string \<Rightarrow> nat" where
  "utf8_length s = sum_list (map (\<lambda>c. if of_char c < (128::nat) then 1 else 2) s)"

definition like_pattern_limit :: nat where
  "like_pattern_limit = 50000"

text \<open>
  What a condition of the \<^verbatim>\<open>WHERE\<close> clause evaluates to on one row: SQL's three truth
  values, or the error. \<^verbatim>\<open>LIKE\<close> on a \<^verbatim>\<open>NULL\<close> column is unknown.
\<close>

datatype sql_bool = SqlTrue | SqlFalse | SqlNull | SqlError

definition like_op :: "string option \<Rightarrow> string \<Rightarrow> sql_bool" where
  "like_op x pat =
     (if like_pattern_limit < utf8_length pat then SqlError
      else (case x of
              None \<Rightarrow> SqlNull
            | Some v \<Rightarrow> if sql_like (c_string pat) (c_string v) then SqlTrue else SqlFalse))"

text \<open>\<^verbatim>\<open>OR\<close> evaluates its right operand only when the left one is not true.\<close>

definition sql_or :: "sql_bool \<Rightarrow> sql_bool \<Rightarrow> sql_bool" where
  "sql_or a b =
     (case a of
        SqlTrue \<Rightarrow> SqlTrue
      | SqlError \<Rightarrow> SqlError
      | _ \<Rightarrow> (case b of
                SqlTrue \<Rightarrow> SqlTrue
              | SqlError \<Rightarrow> SqlError
              | SqlFalse \<Rightarrow> a
              | SqlNull \<Rightarrow> SqlNull))"

text \<open>
  The test the two drop-down filters go through, \<^verbatim>\<open>f and f != "All"\<close>: \<^verbatim>\<open>None\<close>, the
  empty string and \<^verbatim>\<open>"All"\<close> switch the filter off; any other value is the filter's
  argument.
\<close>

definition active_filter :: "string option \<Rightarrow> string option" where
  "active_filter f =
     (case f of None \<Rightarrow> None | Some v \<Rightarrow> if v \<noteq> [] \<and> v \<noteq> ''All'' then Some v else None)"

text \<open>
  \<open>search_patients\<close> builds its \<^verbatim>\<open>WHERE\<close> clause from \<^verbatim>\<open>1=1\<close> by appending one
  \<^verbatim>\<open>AND\<close> term per active filter; the terms are kept as a list of conditions on a row.
  The last name is compared with \<^verbatim>\<open>=\<close>, on the whole stored value.
\<close>

definition query_term :: "string \<Rightarrow> patient \<Rightarrow> sql_bool" where
  "query_term query r =
     (let like_query = ''%'' @ query @ ''%''
      in sql_or (sql_or (sql_or (like_op (Some (first_name r)) like_query)
                                (like_op (Some (last_name r)) like_query))
                        (like_op (Some (email r)) like_query))
                (like_op (phone r) like_query))"

definition last_name_term :: "string \<Rightarrow> patient \<Rightarrow> sql_bool" where
  "last_name_term v r = (if last_name r = v then SqlTrue else SqlFalse)"

definition email_domain_term :: "string \<Rightarrow> patient \<Rightarrow> sql_bool" where
  "email_domain_term v r = like_op (Some (email r)) (''%@'' @ v)"

definition where_terms ::
  "string \<Rightarrow> string option \<Rightarrow> string option \<Rightarrow> (patient \<Rightarrow> sql_bool) list" where
  "where_terms query last_name_filter email_domain_filter =
     [\<lambda>r. SqlTrue]
     @ (if query \<noteq> [] then [query_term query] else [])
     @ (case active_filter last_name_filter of None \<Rightarrow> [] | Some v \<Rightarrow> [last_name_term v])
     @ (case active_filter email_domain_filter of None \<Rightarrow> [] | Some v \<Rightarrow> [email_domain_term v])"

text \<open>
  The engine tests the terms on a row from left to right and leaves the row at the first
  term that is not true, without evaluating the rest: the row is kept when every term is
  true, skipped at a false or unknown term, and the statement fails at a term in error.
\<close>

datatype row_test = Keep | Skip | Fail

fun where_test :: "(patient \<Rightarrow> sql_bool) list \<Rightarrow> patient \<Rightarrow> row_test" where
  "where_test [] r = Keep"
| "where_test (c # cs) r =
     (case c r of SqlTrue \<Rightarrow> where_test cs r | SqlError \<Rightarrow> Fail | _ \<Rightarrow> Skip)"

text \<open>
  What \<open>search_patients\<close> hands to its caller: the rows of \<^verbatim>\<open>fetchall\<close>, or the
  \<^verbatim>\<open>sqlite3.OperationalError\<close> of a statement that failed on some row; nothing in the
  function catches it.
\<close>

datatype search_outcome = Rows "patient list" | Raised_pattern_too_complex

definition search_patients ::
  "table \<Rightarrow> string \<Rightarrow> string option \<Rightarrow> string option \<Rightarrow> search_outcome" where
  "search_patients t query last_name_filter email_domain_filter =
     (let terms = where_terms query last_name_filter email_domain_filter
      in if list_ex (\<lambda>r. where_test terms r = Fail) (rows t) then Raised_pattern_too_complex
         else Rows (order_by_id_desc (filter (\<lambda>r. where_test terms r = Keep) (rows t))))"

subsection \<open>Email domains (lines 144 to 153)\<close>

text \<open>\<^verbatim>\<open>s.split(c)\<close> for a one-character separator.\<close>

fun py_split :: "char \<Rightarrow> string \<Rightarrow> string list" where
  "py_split c [] = [[]]"
| "py_split c (x # xs) =
     (if x = c then [] # py_split c xs
      else (case py_split c xs of [] \<Rightarrow> [[x]] | w # ws \<Rightarrow> (x # w) # ws))"

text \<open>
  One turn of the loop over the emails: an email without \<^verbatim>\<open>@\<close> adds nothing; otherwise
  element 1 of the split is added. \<open>None\<close> is the \<^verbatim>\<open>IndexError\<close> that indexing past the
  end of the split would raise.
\<close>

definition domain_step :: "string \<Rightarrow> string list \<Rightarrow> string list option" where
  "domain_step e domains =
     (if CHR ''@'' \<in> set e
      then (case py_split CHR ''@'' e of
              _ # d # _ \<Rightarrow> Some (List.insert d domains)
            | _ \<Rightarrow> None)
      else Some domains)"

fun domain_loop :: "string list \<Rightarrow> string list \<Rightarrow> string list option" where
  "domain_loop [] domains = Some domains"
| "domain_loop (e # es) domains =
     (case domain_step e domains of None \<Rightarrow> None | Some domains' \<Rightarrow> domain_loop es domains')"

text \<open>
  \<^verbatim>\<open>SELECT DISTINCT email FROM patients\<close>, the loop, then \<^verbatim>\<open>sorted(domains)\<close>: Python
  orders strings character by character, a proper prefix first.
\<close>

definition get_all_email_domains :: "table \<Rightarrow> string list option" where
  "get_all_email_domains t =
     (let emails = remdups (map email (rows t))
      in map_option sort (domain_loop emails []))"

subsection \<open>Properties named by the specification\<close>

text \<open>The invariant on the entry date: no stored row has \<^verbatim>\<open>NULL\<close> there.\<close>

definition no_null_date_of_entry :: "table \<Rightarrow> bool" where
  "no_null_date_of_entry t = list_all (\<lambda>r. date_of_entry r \<noteq> None) (rows t)"

text \<open>
  The specification's words for the text filters. \<open>same_ignoring_case\<close> compares two
  strings with the ASCII letters folded; \<open>occurs_in q x\<close> says that \<open>q\<close> is, up to that
  folding, a contiguous substring of \<open>x\<close>, and \<open>ends_with x q\<close> that it is a suffix.
\<close>

definition same_ignoring_case :: "string \<Rightarrow> string \<Rightarrow> bool" where
  "same_ignoring_case a b = (map sql_lower a = map sql_lower b)"

definition occurs_in :: "string \<Rightarrow> string \<Rightarrow> bool" where
  "occurs_in q x = (\<exists>u v w. x = u @ v @ w \<and> same_ignoring_case v q)"

definition ends_with :: "string \<Rightarrow> string \<Rightarrow> bool" where
  "ends_with x q = (\<exists>u v. x = u @ v \<and> same_ignoring_case v q)"

definition no_wildcard :: "string \<Rightarrow> bool" where
  "no_wildcard q = (CHR ''%'' \<notin> set q \<and> CHR ''_'' \<notin> set q)"

text \<open>
  The rows a search is specified to keep: the free text, when not empty, occurs in one of
  the four searched columns (a \<^verbatim>\<open>NULL\<close> phone contains nothing); the last name, when the
  filter is on, is equal to the filter's value; the email, when the filter is on, ends
  with \<^verbatim>\<open>@\<close> and the filter's value.
\<close>

definition spec_keeps :: "string \<Rightarrow> string option \<Rightarrow> string option \<Rightarrow> patient \<Rightarrow> bool" where
  "spec_keeps q ln dm r =
     ((q = [] \<or> occurs_in q (first_name r) \<or> occurs_in q (last_name r) \<or> occurs_in q (email r)
         \<or> (\<exists>p. phone r = Some p \<and> occurs_in q p))
      \<and> (case active_filter ln of None \<Rightarrow> True | Some v \<Rightarrow> last_name r = v)
      \<and> (case active_filter dm of None \<Rightarrow> True | Some v \<Rightarrow> ends_with (email r) (CHR ''@'' # v)))"

text \<open>
  A text that \<^verbatim>\<open>LIKE\<close> takes literally and in full: no wildcard, no NUL character, and
  short enough for the pattern built around it (two more characters) to stay within the
  limit. A row whose searched columns hold no NUL character.
\<close>

definition plain_text :: "string \<Rightarrow> bool" where
  "plain_text q =
     (no_wildcard q \<and> CHR 0x00 \<notin> set q \<and> utf8_length q + 2 \<le> like_pattern_limit)"

definition nul_free_row :: "patient \<Rightarrow> bool" where
  "nul_free_row r =
     (CHR 0x00 \<notin> set (first_name r) \<and> CHR 0x00 \<notin> set (last_name r)
      \<and> CHR 0x00 \<notin> set (email r)
      \<and> (case phone r of None \<Rightarrow> True | Some p \<Rightarrow> CHR 0x00 \<notin> set p))"

text \<open>
  The part of an email between its first \<^verbatim>\<open>@\<close> and its next \<^verbatim>\<open>@\<close>, or its end when
  there is no other; and all that follows the first \<^verbatim>\<open>@\<close>.
\<close>

definition after_at :: "string \<Rightarrow> string" where
  "after_at e = tl (dropWhile (\<lambda>c. c \<noteq> CHR ''@'') e)"

definition domain_of :: "string \<Rightarrow> string" where
  "domain_of e = takeWhile (\<lambda>c. c \<noteq> CHR ''@'') (after_at e)"

text \<open>What one turn of the loop in \<open>get_all_email_domains\<close> adds when it does not fail.\<close>

definition add_domain :: "string \<Rightarrow> string list \<Rightarrow> string list" where
  "add_domain e ds = (if CHR ''@'' \<in> set e then List.insert (domain_of e) ds else ds)"

text \<open>
  The specification's words for the two validators. A phone number is an optional \<^verbatim>\<open>+\<close>
  and then 10 to 15 decimal digits, nothing else. An email is a local part of one or more
  characters of \<^verbatim>\<open>[A-Za-z0-9._%+-]\<close>, an \<^verbatim>\<open>@\<close>, one or more label characters and dots,
  a dot, and a last label of two or more letters, nothing else.
\<close>

definition phone_shape :: "string \<Rightarrow> bool" where
  "phone_shape s =
     (\<exists>sign ds. s = sign @ ds \<and> (sign = [] \<or> sign = ''+'')
        \<and> 10 \<le> length ds \<and> length ds \<le> 15 \<and> (\<forall>c \<in> set ds. in_class digit c))"

definition email_shape :: "string \<Rightarrow> bool" where
  "email_shape s =
     (\<exists>l d t. s = l @ ''@'' @ d @ ''.'' @ t
        \<and> l \<noteq> [] \<and> (\<forall>c \<in> set l. in_class email_local c)
        \<and> d \<noteq> [] \<and> (\<forall>c \<in> set d. in_class email_domain c)
        \<and> 2 \<le> length t \<and> (\<forall>c \<in> set t. in_class alpha c))"

subsection \<open>Tables used as examples\<close>

definition migrated_columns :: "string list" where
  "migrated_columns = created_columns @ [''date_of_birth'', ''date_of_entry'']"

definition empty_table :: table where
  "empty_table = \<lparr>columns = migrated_columns, rows = [], seq = 0\<rparr>"

definition row_A :: patient where
  "row_A = \<lparr>pid = 1, first_name = ''Ann'', last_name = ''Smith'', address = None,
     email = ''a@x.com'', phone = None, date_of_birth = None,
     date_of_entry = Some ''2024-03-01''\<rparr>"

definition row_B :: patient where
  "row_B = \<lparr>pid = 2, first_name = ''Bob'', last_name = ''Smith'', address = Some ''2 High St'',
     email = ''b@y.com'', phone = Some ''+15551234567'', date_of_birth = Some ''1980-05-17'',
     date_of_entry = Some ''2024-03-02''\<rparr>"

definition row_C :: patient where
  "row_C = \<lparr>pid = 3, first_name = ''Cy'', last_name = ''Jones'', address = None,
     email = ''c@x.com'', phone = None, date_of_birth = None,
     date_of_entry = Some ''2024-03-03''\<rparr>"

definition smith_jones :: table where
  "smith_jones = \<lparr>columns = migrated_columns, rows = [row_A, row_B, row_C], seq = 3\<rparr>"

text \<open>A table whose one row has an email with two at-signs.\<close>

definition two_at_table :: table where
  "two_at_table = \<lparr>columns = migrated_columns, rows = [row_A\<lparr>email := ''a@b@c''\<rparr>], seq = 1\<rparr>"

text \<open>A table from before the migration: six columns, one row.\<close>

definition legacy_table :: table where
  "legacy_table = \<lparr>columns = created_columns, rows = [row_A\<lparr>date_of_entry := None\<rparr>], seq = 1\<rparr>"

section \<open>Auxiliary facts\<close>

lemmas example_defs = empty_table_def smith_jones_def legacy_table_def row_A_def row_B_def row_C_def

lemma py_in_self: "py_in x x"
  by (cases x) simp_all

lemma on_result_unique:
  "on_result t (IntegrityError unique_email_failed) =
     (t, Return False (Some ''Email already exists.''))"
  by (simp add: on_result_def py_in_self)

lemma on_result_Done: "on_result t (Done t') = (t', Return True None)"
  by (simp add: on_result_def)

lemma on_result_OperationalError: "on_result t OperationalError = (t, Raised_OperationalError)"
  by (simp add: on_result_def)

lemma max_id_ge: "r \<in> set rs \<Longrightarrow> pid r \<le> max_id rs"
  by (induction rs) auto

lemma next_rowid_fresh: "r \<in> set (rows t) \<Longrightarrow> pid r < next_rowid t"
  using max_id_ge [of r "rows t"] by (simp add: next_rowid_def)


lemma has_migrated_columns:
  "columns t = migrated_columns \<Longrightarrow>
     has_columns t written_columns \<and> has_columns t (written_columns @ [''id''])"
  by (simp add: has_columns_def migrated_columns_def created_columns_def written_columns_def)

lemma init_db_None: "init_db today None = empty_table"
  by (simp add: init_db_def create_table_if_not_exists_def migrate_db_def Let_def add_column_def
      backfill_date_of_entry_def empty_table_def migrated_columns_def created_columns_def)

text \<open>The three ways \<open>add_patient\<close> and \<open>update_patient\<close> can end.\<close>

lemma add_patient_cases:
  "add_patient t fn ln addr em ph dob doe =
     (if \<not> has_columns t written_columns then (t, Raised_OperationalError)
      else if em \<in> email ` set (rows t) then (t, Return False (Some ''Email already exists.''))
      else (t\<lparr>rows := rows t @
                 [\<lparr>pid = next_rowid t, first_name = fn, last_name = ln, address = addr,
                   email = em, phone = ph, date_of_birth = dob, date_of_entry = doe\<rparr>],
              seq := next_rowid t\<rparr>, Return True None))"
  by (auto simp add: add_patient_def sql_insert_def on_result_unique on_result_Done
      on_result_OperationalError list_ex_iff)

lemma update_patient_cases:
  "update_patient t i fn ln addr em ph dob doe =
     (if \<not> has_columns t (written_columns @ [''id'']) then (t, Raised_OperationalError)
      else if i \<in> pid ` set (rows t) \<and> (\<exists>r \<in> set (rows t). pid r \<noteq> i \<and> email r = em)
        then (t, Return False (Some ''Email already exists.''))
      else (t\<lparr>rows := map (\<lambda>r. if pid r = i
                               then r\<lparr>first_name := fn, last_name := ln, address := addr,
                                      email := em, phone := ph, date_of_birth := dob,
                                      date_of_entry := doe\<rparr>
                               else r) (rows t)\<rparr>, Return True None))"
  by (auto simp add: update_patient_def sql_update_def on_result_unique on_result_Done
      on_result_OperationalError list_ex_iff)

lemma get_appended:
  assumes "\<forall>r \<in> set rs. pid r \<noteq> pid x"
  shows "get_patient_by_id (t\<lparr>rows := rs @ [x], seq := n\<rparr>) (pid x) = Some x"
proof -
  have "filter (\<lambda>r. pid r = pid x) rs = []"
    using assms by (simp add: filter_empty_conv)
  then show ?thesis by (simp add: get_patient_by_id_def)
qed

text \<open>What the migration does to the rows and to the column names.\<close>

lemma migrate_rows:
  "rows (migrate_db today t) =
     map (\<lambda>r. r\<lparr>date_of_birth :=
                   (if ''date_of_birth'' \<in> set (columns t) then date_of_birth r else None),
                 date_of_entry :=
                   (if ''date_of_entry'' \<in> set (columns t) \<and> date_of_entry r \<noteq> None
                    then date_of_entry r else Some today)\<rparr>) (rows t)"
  by (auto simp add: migrate_db_def Let_def add_column_def backfill_date_of_entry_def
      clear_column_def)

lemma migrate_columns:
  "set (columns (migrate_db today t)) = set (columns t) \<union> {''date_of_birth'', ''date_of_entry''}"
  by (auto simp add: migrate_db_def Let_def add_column_def backfill_date_of_entry_def)

text \<open>
  After the schema step a table that had the six created columns has every column the
  record store names.
\<close>

lemma migrate_has_columns:
  assumes "set created_columns \<subseteq> set (columns t)"
  shows "has_columns (migrate_db today t) (written_columns @ [''id''])"
  using assms
  by (simp add: has_columns_def migrate_columns written_columns_def created_columns_def)

lemma init_db_has_columns: "has_columns (init_db today None) (written_columns @ [''id''])"
  using has_migrated_columns [of empty_table] by (simp add: init_db_None empty_table_def)

lemma no_null_migrate: "no_null_date_of_entry (migrate_db today t)"
  by (simp add: no_null_date_of_entry_def migrate_rows list_all_iff)

lemma no_null_add:
  assumes "no_null_date_of_entry t" and "doe \<noteq> None"
  shows "no_null_date_of_entry (fst (add_patient t fn ln addr em ph dob doe))"
  using assms by (simp add: add_patient_cases no_null_date_of_entry_def)

lemma no_null_update:
  assumes "no_null_date_of_entry t" and "doe \<noteq> None"
  shows "no_null_date_of_entry (fst (update_patient t i fn ln addr em ph dob doe))"
  using assms by (auto simp add: update_patient_cases no_null_date_of_entry_def list_all_iff)

lemma no_null_delete:
  assumes "no_null_date_of_entry t"
  shows "no_null_date_of_entry (delete_patient t i)"
  using assms by (simp add: delete_patient_def no_null_date_of_entry_def list_all_iff)

text \<open>\<^verbatim>\<open>ORDER BY id DESC\<close> returns the rows it is given, each once, largest id first.\<close>

lemma mset_order_by_id_desc: "mset (order_by_id_desc rs) = mset rs"
  by (simp add: order_by_id_desc_def)

lemma order_by_id_desc_sorted: "sorted_wrt (\<lambda>a b. a \<ge> b) (map pid (order_by_id_desc rs))"
proof -
  have "sorted (map pid (sort_key pid rs))" by simp
  then have "sorted_wrt (\<lambda>a b. a \<ge> b) (rev (map pid (sort_key pid rs)))"
    by (simp add: sorted_wrt_rev)
  then show ?thesis by (simp add: order_by_id_desc_def rev_map)
qed

lemma filter_order_by_id_desc:
  "order_by_id_desc (filter P rs) = filter P (order_by_id_desc rs)"
  by (simp add: order_by_id_desc_def filter_sort [symmetric] rev_filter)

text \<open>Facts that evaluate a search on a table written out in full.\<close>

lemma utf8_length_Cons:
  "utf8_length (c # s) = (if of_char c < (128::nat) then 1 else 2) + utf8_length s"
  "utf8_length [] = 0"
  by (simp_all add: utf8_length_def)

lemma c_string_Cons:
  "c_string (c # s) = (if c = CHR 0x00 then [] else c # c_string s)"
  "c_string [] = []"
  by (simp_all add: c_string_def)

lemmas search_eval = search_patients_def where_terms_def query_term_def last_name_term_def
  email_domain_term_def like_op_def utf8_length_Cons c_string_Cons like_pattern_limit_def
  sql_or_def active_filter_def order_by_id_desc_def Let_def sql_lower_def less_eq_char_def

text \<open>A search with every filter off has the single condition \<^verbatim>\<open>1=1\<close>.\<close>

lemma search_no_filter:
  assumes "active_filter ln = None" and "active_filter dm = None"
  shows "search_patients t [] ln dm = Rows (get_all_patients t)"
  using assms
  by (simp add: search_patients_def where_terms_def get_all_patients_def list_ex_iff)

subsection \<open>The two patterns\<close>

text \<open>
  A quantified class matches exactly the prefixes of the subject whose length is within
  the bounds and whose characters are all in the class.
\<close>

lemma le_length_takeWhile:
  "j \<le> length (takeWhile P s) \<longleftrightarrow> j \<le> length s \<and> (\<forall>c \<in> set (take j s). P c)"
proof (induction s arbitrary: j)
  case Nil
  then show ?case by simp
next
  case (Cons x xs)
  then show ?case by (cases j) auto
qed

lemma rep_counts_iff:
  "j \<in> set (rep_counts cls m mx s) \<longleftrightarrow>
     m \<le> j \<and> (case mx of None \<Rightarrow> True | Some n \<Rightarrow> j \<le> n) \<and> j \<le> length s
       \<and> (\<forall>c \<in> set (take j s). in_class cls c)"
proof -
  have "j \<in> set (rep_counts cls m mx s) \<longleftrightarrow>
      m \<le> j \<and> (case mx of None \<Rightarrow> True | Some n \<Rightarrow> j \<le> n)
        \<and> j \<le> length (takeWhile (in_class cls) s)"
    by (auto simp add: rep_counts_def Let_def split: option.splits)
  then show ?thesis by (simp add: le_length_takeWhile)
qed

lemma re_match_at_Rep:
  "re_match_at (Rep cls m mx # p) k s \<longleftrightarrow>
     (\<exists>u v. s = u @ v \<and> m \<le> length u \<and> (case mx of None \<Rightarrow> True | Some n \<Rightarrow> length u \<le> n)
        \<and> (\<forall>c \<in> set u. in_class cls c) \<and> re_match_at p (k + length u) v)"
  (is "?L \<longleftrightarrow> ?R")
proof
  assume ?L
  then obtain j where j: "j \<in> set (rep_counts cls m mx s)" "re_match_at p (k + j) (drop j s)"
    by (auto simp add: list_ex_iff)
  from j(1) have c: "m \<le> j" "case mx of None \<Rightarrow> True | Some n \<Rightarrow> j \<le> n" "j \<le> length s"
      "\<forall>c \<in> set (take j s). in_class cls c"
    by (simp_all add: rep_counts_iff)
  have "s = take j s @ drop j s" by simp
  moreover from c(3) have "length (take j s) = j" by simp
  ultimately show ?R using c j(2) by metis
next
  assume ?R
  then obtain u v where uv: "s = u @ v" "m \<le> length u"
      "case mx of None \<Rightarrow> True | Some n \<Rightarrow> length u \<le> n"
      "\<forall>c \<in> set u. in_class cls c" "re_match_at p (k + length u) v"
    by blast
  then have "length u \<in> set (rep_counts cls m mx s)"
    by (simp add: rep_counts_iff)
  moreover from uv have "re_match_at p (k + length u) (drop (length u) s)" by simp
  ultimately show ?L by (auto simp add: list_ex_iff)
qed

lemma in_class_single: "in_class (single x) c \<longleftrightarrow> c = x"
  by (auto simp add: in_class_def single_def)

lemma phone_match_iff:
  "is_valid_phone s \<longleftrightarrow> (\<exists>u v. s = u @ v \<and> length u \<le> 1 \<and> (\<forall>c \<in> set u. in_class (single CHR ''+'') c)
       \<and> (\<exists>w x. v = w @ x \<and> 10 \<le> length w \<and> length w \<le> 15 \<and> (\<forall>c \<in> set w. in_class digit c)
             \<and> at_dollar x))"
  by (simp add: is_valid_phone_def re_match_def phone_pattern_def re_match_at_Rep
        del: re_match_at.simps(4))

lemma sign_iff:
  "length u \<le> 1 \<and> (\<forall>c \<in> set u. in_class (single CHR ''+'') c) \<longleftrightarrow> u = [] \<or> u = ''+''"
  by (cases u) (auto simp add: in_class_single)

lemma is_valid_phone_iff:
  "is_valid_phone s \<longleftrightarrow> phone_shape s \<or> (\<exists>s'. s = s' @ [CHR 0x0A] \<and> phone_shape s')"
  (is "?L \<longleftrightarrow> ?R")
proof
  assume ?L
  then obtain u w x where h: "s = u @ w @ x" "length u \<le> 1 \<and> (\<forall>c \<in> set u. in_class (single CHR ''+'') c)"
      "10 \<le> length w" "length w \<le> 15"
      "\<forall>c \<in> set w. in_class digit c" "at_dollar x"
    unfolding phone_match_iff by blast
  from h(2) have u: "u = [] \<or> u = ''+''" by (simp only: sign_iff)
  with h(3,4,5) have ps: "phone_shape (u @ w)"
    unfolding phone_shape_def by blast
  from h(6) have "x = [] \<or> x = [CHR 0x0A]" by (simp add: at_dollar_def)
  then show ?R
  proof
    assume "x = []"
    with h(1) ps show ?R by simp
  next
    assume "x = [CHR 0x0A]"
    with h(1) have "s = (u @ w) @ [CHR 0x0A]" by simp
    with ps show ?R by blast
  qed
next
  assume ?R
  then obtain s' x where sx: "s = s' @ x" "phone_shape s'" "at_dollar x"
    unfolding at_dollar_def by (metis append_Nil2)
  from sx(2) obtain u w where h: "s' = u @ w" "u = [] \<or> u = ''+''"
      "10 \<le> length w" "length w \<le> 15" "\<forall>c \<in> set w. in_class digit c"
    unfolding phone_shape_def by blast
  from h(2) have u: "length u \<le> 1 \<and> (\<forall>c \<in> set u. in_class (single CHR ''+'') c)"
    by (simp only: sign_iff)
  have "s = u @ (w @ x)" using sx(1) h(1) by simp
  with u h(3,4,5) sx(3) show ?L
    unfolding phone_match_iff by blast
qed


lemma one_char_iff:
  "1 \<le> length u \<and> length u \<le> 1 \<and> (\<forall>c \<in> set u. in_class (single x) c) \<longleftrightarrow> u = [x]"
  by (cases u) (auto simp add: in_class_single)

lemma re_match_at_char:
  "re_match_at (Rep (single x) 1 (Some 1) # p) k s \<longleftrightarrow> (\<exists>v. s = x # v \<and> re_match_at p (Suc k) v)"
proof -
  have "re_match_at (Rep (single x) 1 (Some 1) # p) k s \<longleftrightarrow>
      (\<exists>u v. s = u @ v \<and> (1 \<le> length u \<and> length u \<le> 1 \<and> (\<forall>c \<in> set u. in_class (single x) c))
         \<and> re_match_at p (k + length u) v)"
    by (simp add: re_match_at_Rep conj_assoc del: re_match_at.simps(4))
  also have "\<dots> \<longleftrightarrow> (\<exists>u v. s = u @ v \<and> u = [x] \<and> re_match_at p (k + length u) v)"
    by (simp only: one_char_iff)
  also have "\<dots> \<longleftrightarrow> (\<exists>v. s = x # v \<and> re_match_at p (Suc k) v)"
    by auto
  finally show ?thesis .
qed

lemma re_match_at_many:
  "re_match_at (Rep cls m None # p) k s \<longleftrightarrow>
     (\<exists>u v. s = u @ v \<and> m \<le> length u \<and> (\<forall>c \<in> set u. in_class cls c)
        \<and> re_match_at p (k + length u) v)"
  by (simp add: re_match_at_Rep del: re_match_at.simps(4))

lemma match_tld:
  "re_match_at [Rep alpha 2 None, Dollar] k s \<longleftrightarrow>
     (\<exists>t x. s = t @ x \<and> 2 \<le> length t \<and> (\<forall>c \<in> set t. in_class alpha c) \<and> at_dollar x)"
  by (simp add: re_match_at_many del: re_match_at.simps(4))

lemma match_dot_tld:
  "re_match_at [Rep (single CHR ''.'') 1 (Some 1), Rep alpha 2 None, Dollar] k s \<longleftrightarrow>
     (\<exists>t x. s = ''.'' @ t @ x \<and> 2 \<le> length t \<and> (\<forall>c \<in> set t. in_class alpha c) \<and> at_dollar x)"
  by (simp only: re_match_at_char match_tld) auto

lemma match_domain:
  "re_match_at [Rep email_domain 1 None, Rep (single CHR ''.'') 1 (Some 1), Rep alpha 2 None, Dollar]
     k s \<longleftrightarrow>
     (\<exists>d t x. s = d @ ''.'' @ t @ x \<and> d \<noteq> [] \<and> (\<forall>c \<in> set d. in_class email_domain c)
        \<and> 2 \<le> length t \<and> (\<forall>c \<in> set t. in_class alpha c) \<and> at_dollar x)"
proof -
  have ne: "1 \<le> length d \<longleftrightarrow> d \<noteq> []" for d :: string
    by (cases d) auto
  show ?thesis
    by (simp only: re_match_at_many match_dot_tld ne) blast
qed

lemma match_at_domain:
  "re_match_at [Rep (single CHR ''@'') 1 (Some 1), Rep email_domain 1 None,
       Rep (single CHR ''.'') 1 (Some 1), Rep alpha 2 None, Dollar] k s \<longleftrightarrow>
     (\<exists>d t x. s = ''@'' @ d @ ''.'' @ t @ x \<and> d \<noteq> [] \<and> (\<forall>c \<in> set d. in_class email_domain c)
        \<and> 2 \<le> length t \<and> (\<forall>c \<in> set t. in_class alpha c) \<and> at_dollar x)"
  by (simp only: re_match_at_char match_domain) auto

lemma match_email:
  "is_valid_email s \<longleftrightarrow>
     (\<exists>l d t x. s = l @ ''@'' @ d @ ''.'' @ t @ x
        \<and> l \<noteq> [] \<and> (\<forall>c \<in> set l. in_class email_local c)
        \<and> d \<noteq> [] \<and> (\<forall>c \<in> set d. in_class email_domain c)
        \<and> 2 \<le> length t \<and> (\<forall>c \<in> set t. in_class alpha c) \<and> at_dollar x)"
proof -
  have ne: "1 \<le> length d \<longleftrightarrow> d \<noteq> []" for d :: string
    by (cases d) auto
  have "is_valid_email s \<longleftrightarrow> re_match_at (Rep email_local 1 None #
      [Rep (single CHR ''@'') 1 (Some 1), Rep email_domain 1 None,
       Rep (single CHR ''.'') 1 (Some 1), Rep alpha 2 None, Dollar]) 0 s"
    by (simp add: is_valid_email_def re_match_def email_pattern_def del: re_match_at.simps(4))
  also have "\<dots> \<longleftrightarrow> (\<exists>l v. s = l @ v \<and> l \<noteq> [] \<and> (\<forall>c \<in> set l. in_class email_local c)
      \<and> (\<exists>d t x. v = ''@'' @ d @ ''.'' @ t @ x \<and> d \<noteq> [] \<and> (\<forall>c \<in> set d. in_class email_domain c)
        \<and> 2 \<le> length t \<and> (\<forall>c \<in> set t. in_class alpha c) \<and> at_dollar x))"
    by (simp only: re_match_at_many match_at_domain ne)
  also have "\<dots> \<longleftrightarrow> (\<exists>l d t x. s = l @ ''@'' @ d @ ''.'' @ t @ x
        \<and> l \<noteq> [] \<and> (\<forall>c \<in> set l. in_class email_local c)
        \<and> d \<noteq> [] \<and> (\<forall>c \<in> set d. in_class email_domain c)
        \<and> 2 \<le> length t \<and> (\<forall>c \<in> set t. in_class alpha c) \<and> at_dollar x)"
    by blast
  finally show ?thesis .
qed

lemma is_valid_email_iff:
  "is_valid_email s \<longleftrightarrow> email_shape s \<or> (\<exists>s'. s = s' @ [CHR 0x0A] \<and> email_shape s')"
  (is "?L \<longleftrightarrow> ?R")
proof
  assume ?L
  then obtain l d t x where h: "s = l @ ''@'' @ d @ ''.'' @ t @ x"
      "l \<noteq> []" "\<forall>c \<in> set l. in_class email_local c"
      "d \<noteq> []" "\<forall>c \<in> set d. in_class email_domain c"
      "2 \<le> length t" "\<forall>c \<in> set t. in_class alpha c" "at_dollar x"
    unfolding match_email by blast
  then have es: "email_shape (l @ ''@'' @ d @ ''.'' @ t)"
    unfolding email_shape_def by blast
  from h(8) have "x = [] \<or> x = [CHR 0x0A]" by (simp add: at_dollar_def)
  then show ?R
  proof
    assume "x = []"
    with h(1) es show ?R by simp
  next
    assume "x = [CHR 0x0A]"
    with h(1) have "s = (l @ ''@'' @ d @ ''.'' @ t) @ [CHR 0x0A]" by simp
    with es show ?R by blast
  qed
next
  assume ?R
  then obtain s' x where sx: "s = s' @ x" "email_shape s'" "at_dollar x"
    unfolding at_dollar_def by (metis append_Nil2)
  from sx(2) obtain l d t where h: "s' = l @ ''@'' @ d @ ''.'' @ t"
      "l \<noteq> []" "\<forall>c \<in> set l. in_class email_local c"
      "d \<noteq> []" "\<forall>c \<in> set d. in_class email_domain c"
      "2 \<le> length t" "\<forall>c \<in> set t. in_class alpha c"
    unfolding email_shape_def by blast
  have "s = l @ ''@'' @ d @ ''.'' @ t @ x" using sx(1) h(1) by simp
  with h(2-7) sx(3) show ?L
    unfolding match_email by blast
qed

text \<open>A string of either shape ends with a character of its last class.\<close>

lemma phone_shape_last: "phone_shape s \<Longrightarrow> s \<noteq> [] \<and> in_class digit (last s)"
proof -
  assume "phone_shape s"
  then obtain sign ds where h: "s = sign @ ds" "10 \<le> length ds" "\<forall>c \<in> set ds. in_class digit c"
    unfolding phone_shape_def by blast
  from h(2) have "ds \<noteq> []" by auto
  with h show ?thesis by simp
qed

lemma email_shape_last: "email_shape s \<Longrightarrow> s \<noteq> [] \<and> in_class alpha (last s)"
proof -
  assume "email_shape s"
  then obtain l d t where h: "s = l @ ''@'' @ d @ ''.'' @ t" "2 \<le> length t"
      "\<forall>c \<in> set t. in_class alpha c"
    unfolding email_shape_def by blast
  from h(2) have "t \<noteq> []" by auto
  with h show ?thesis by simp
qed

lemma newline_not_digit: "\<not> in_class digit (CHR 0x0A)"
  by (simp add: in_class_def digit_def less_eq_char_def)

lemma newline_not_alpha: "\<not> in_class alpha (CHR 0x0A)"
  by (simp add: in_class_def alpha_def upper_az_def lower_az_def less_eq_char_def)

text \<open>So no string that ends with a newline has either shape.\<close>

lemma newline_not_phone_shape: "\<not> phone_shape (s @ [CHR 0x0A])"
  using phone_shape_last [of "s @ [CHR 0x0A]"] newline_not_digit by auto

lemma newline_not_email_shape: "\<not> email_shape (s @ [CHR 0x0A])"
  using email_shape_last [of "s @ [CHR 0x0A]"] newline_not_alpha by auto

subsection \<open>Splitting an email at its at-signs\<close>

lemma py_split_unfold:
  "py_split c s = takeWhile (\<lambda>x. x \<noteq> c) s
     # (if c \<in> set s then py_split c (tl (dropWhile (\<lambda>x. x \<noteq> c) s)) else [])"
  by (induction s) auto

lemma py_split_second:
  assumes "CHR ''@'' \<in> set e"
  shows "\<exists>w ws. py_split CHR ''@'' e = w # domain_of e # ws"
proof -
  have "py_split CHR ''@'' e
      = takeWhile (\<lambda>x. x \<noteq> CHR ''@'') e # py_split CHR ''@'' (after_at e)"
    using assms py_split_unfold [of "CHR ''@''" e] by (simp add: after_at_def)
  moreover have "\<exists>ws. py_split CHR ''@'' (after_at e) = domain_of e # ws"
    using py_split_unfold [of "CHR ''@''" "after_at e"] by (simp add: domain_of_def)
  ultimately show ?thesis by auto
qed

text \<open>The index into the split is always in range: the loop never raises.\<close>

lemma domain_step_eq: "domain_step e ds = Some (add_domain e ds)"
proof (cases "CHR ''@'' \<in> set e")
  case True
  from py_split_second [OF True] obtain w ws where "py_split CHR ''@'' e = w # domain_of e # ws"
    by blast
  with True show ?thesis by (simp add: domain_step_def add_domain_def)
next
  case False
  then show ?thesis by (simp add: domain_step_def add_domain_def)
qed

lemma domain_loop_eq: "domain_loop es ds = Some (fold add_domain es ds)"
  by (induction es arbitrary: ds) (simp_all add: domain_step_eq)

lemma set_fold_add_domain:
  "set (fold add_domain es ds) = set ds \<union> {domain_of e | e. e \<in> set es \<and> CHR ''@'' \<in> set e}"
  by (induction es arbitrary: ds) (auto simp add: add_domain_def)

lemma distinct_fold_add_domain: "distinct ds \<Longrightarrow> distinct (fold add_domain es ds)"
  by (induction es arbitrary: ds) (simp_all add: add_domain_def)

lemma get_all_email_domains_eq:
  "get_all_email_domains t = Some (sort (fold add_domain (remdups (map email (rows t))) []))"
  by (simp add: get_all_email_domains_def domain_loop_eq)

lemma one_at: "CHR ''@'' \<notin> set (after_at e) \<Longrightarrow> domain_of e = after_at e"
  by (auto simp add: domain_of_def takeWhile_eq_all_conv)

text \<open>
  The list is sorted, has no duplicates, and holds the second piece of every stored email
  that has an at-sign. When every stored email has exactly one at-sign, that is the text
  after it.
\<close>

lemma get_all_email_domains_set:
  "\<exists>ds. get_all_email_domains t = Some ds \<and> sorted ds \<and> distinct ds
     \<and> set ds = {domain_of e | e. e \<in> email ` set (rows t) \<and> CHR ''@'' \<in> set e}"
proof -
  let ?ds = "sort (fold add_domain (remdups (map email (rows t))) [])"
  have "set ?ds = {domain_of e | e. e \<in> email ` set (rows t) \<and> CHR ''@'' \<in> set e}"
    by (simp add: set_fold_add_domain)
  moreover have "distinct ?ds"
    by (simp add: distinct_fold_add_domain)
  moreover have "sorted ?ds" by simp
  ultimately show ?thesis
    using get_all_email_domains_eq [of t] by blast
qed

lemma single_at_domains:
  assumes "\<forall>r \<in> set (rows t). CHR ''@'' \<in> set (email r) \<and> CHR ''@'' \<notin> set (after_at (email r))"
  shows "\<exists>ds. get_all_email_domains t = Some ds \<and> sorted ds \<and> distinct ds
     \<and> set ds = after_at ` email ` set (rows t)"
proof -
  from get_all_email_domains_set [of t] obtain ds where
    ds: "get_all_email_domains t = Some ds" "sorted ds" "distinct ds"
      "set ds = {domain_of e | e. e \<in> email ` set (rows t) \<and> CHR ''@'' \<in> set e}"
    by blast
  have "{domain_of e | e. e \<in> email ` set (rows t) \<and> CHR ''@'' \<in> set e}
      = after_at ` email ` set (rows t)"
    using assms one_at by force
  with ds show ?thesis by simp
qed

subsection \<open>What \<^verbatim>\<open>LIKE\<close> matches\<close>

text \<open>
  A leading \<^verbatim>\<open>%\<close> lets the rest of the pattern start anywhere in the text. A stretch of
  pattern without \<^verbatim>\<open>%\<close> and \<^verbatim>\<open>_\<close> matches a stretch of text of the same length that
  differs from it in the case of ASCII letters at most.
\<close>

lemma sql_like_percent:
  "sql_like (CHR ''%'' # p) t \<longleftrightarrow> (\<exists>u v. t = u @ v \<and> sql_like p v)"
proof (induction t)
  case Nil
  then show ?case by simp
next
  case (Cons c cs)
  have "sql_like (CHR ''%'' # p) (c # cs) \<longleftrightarrow> sql_like p (c # cs) \<or> sql_like (CHR ''%'' # p) cs"
    by simp
  also have "\<dots> \<longleftrightarrow> sql_like p (c # cs) \<or> (\<exists>u v. cs = u @ v \<and> sql_like p v)"
    by (simp only: Cons.IH)
  also have "\<dots> \<longleftrightarrow> (\<exists>u v. c # cs = u @ v \<and> sql_like p v)"
    by (auto simp add: Cons_eq_append_conv)
  finally show ?case .
qed

lemma sql_like_plain_append:
  "no_wildcard q \<Longrightarrow>
     sql_like (q @ p) t \<longleftrightarrow> (\<exists>v w. t = v @ w \<and> same_ignoring_case v q \<and> sql_like p w)"
proof (induction q arbitrary: t)
  case Nil
  then show ?case by (simp add: same_ignoring_case_def)
next
  case (Cons a q)
  then have a: "a \<noteq> CHR ''%''" "a \<noteq> CHR ''_''" and q: "no_wildcard q"
    by (auto simp add: no_wildcard_def)
  show ?case
  proof (cases t)
    case Nil
    with a show ?thesis by (simp add: same_ignoring_case_def)
  next
    case (Cons c cs)
    have "sql_like ((a # q) @ p) (c # cs) \<longleftrightarrow> sql_lower a = sql_lower c \<and> sql_like (q @ p) cs"
      using a by simp
    also have "\<dots> \<longleftrightarrow> sql_lower a = sql_lower c
        \<and> (\<exists>v w. cs = v @ w \<and> same_ignoring_case v q \<and> sql_like p w)"
      using Cons.IH [OF q] by simp
    also have "\<dots> \<longleftrightarrow> (\<exists>v w. c # cs = v @ w \<and> same_ignoring_case v (a # q) \<and> sql_like p w)"
      (is "?A \<longleftrightarrow> ?B")
    proof
      assume ?A
      then obtain v w where "cs = v @ w" "same_ignoring_case v q" "sql_like p w"
          "sql_lower a = sql_lower c"
        by blast
      then have "c # cs = (c # v) @ w \<and> same_ignoring_case (c # v) (a # q) \<and> sql_like p w"
        by (simp add: same_ignoring_case_def)
      then show ?B by blast
    next
      assume ?B
      then obtain v w where h: "c # cs = v @ w" "same_ignoring_case v (a # q)" "sql_like p w"
        by blast
      from h(2) obtain c' v' where v: "v = c' # v'"
        by (cases v) (auto simp add: same_ignoring_case_def)
      with h show ?A by (auto simp add: same_ignoring_case_def)
    qed
    finally show ?thesis using Cons by simp
  qed
qed

lemma sql_like_plain: "no_wildcard q \<Longrightarrow> sql_like q t \<longleftrightarrow> same_ignoring_case t q"
  using sql_like_plain_append [of q "[]" t] by auto

lemma sql_like_any: "sql_like ''%'' t"
  by (simp add: sql_like_percent)

lemma like_contains:
  assumes "no_wildcard q"
  shows "sql_like (''%'' @ q @ ''%'') t \<longleftrightarrow> occurs_in q t"
proof -
  have "sql_like (''%'' @ q @ ''%'') t \<longleftrightarrow> (\<exists>u v. t = u @ v \<and> sql_like (q @ ''%'') v)"
    by (simp add: sql_like_percent)
  also have "\<dots> \<longleftrightarrow> (\<exists>u v. t = u @ v \<and> (\<exists>x w. v = x @ w \<and> same_ignoring_case x q))"
    by (simp add: sql_like_plain_append [OF assms] sql_like_any)
  also have "\<dots> \<longleftrightarrow> occurs_in q t"
    unfolding occurs_in_def by blast
  finally show ?thesis .
qed

lemma like_suffix:
  assumes "no_wildcard v"
  shows "sql_like (''%@'' @ v) t \<longleftrightarrow> ends_with t (CHR ''@'' # v)"
proof -
  from assms have nw: "no_wildcard (CHR ''@'' # v)"
    by (simp add: no_wildcard_def)
  have "sql_like (''%@'' @ v) t \<longleftrightarrow> (\<exists>u w. t = u @ w \<and> sql_like (CHR ''@'' # v) w)"
    by (simp add: sql_like_percent)
  also have "\<dots> \<longleftrightarrow> ends_with t (CHR ''@'' # v)"
    by (simp only: sql_like_plain [OF nw] ends_with_def)
  finally show ?thesis .
qed

text \<open>Python's \<^verbatim>\<open>in\<close> and the specification's ``occurs in''.\<close>

lemma py_in_iff: "py_in x s \<longleftrightarrow> (\<exists>u w. s = u @ x @ w)"
proof (induction s)
  case Nil
  then show ?case by auto
next
  case (Cons c cs)
  have "take (length x) (c # cs) = x \<longleftrightarrow> (\<exists>w. c # cs = x @ w)"
    by (metis append_eq_conv_conj append_take_drop_id)
  moreover have "(\<exists>u w. c # cs = u @ x @ w) \<longleftrightarrow> (\<exists>w. c # cs = x @ w) \<or> (\<exists>u w. cs = u @ x @ w)"
    (is "?A \<longleftrightarrow> ?B \<or> ?C")
  proof
    assume ?A
    then obtain u w where h: "c # cs = u @ x @ w" by blast
    show "?B \<or> ?C"
    proof (cases u)
      case Nil
      with h show ?thesis by auto
    next
      case (Cons a u')
      with h have "cs = u' @ x @ w" by simp
      then show ?thesis by blast
    qed
  next
    assume "?B \<or> ?C"
    then show ?A
    proof
      assume ?B
      then obtain w where "c # cs = [] @ x @ w" by auto
      then show ?A by blast
    next
      assume ?C
      then obtain u w where "cs = u @ x @ w" by blast
      then have "c # cs = (c # u) @ x @ w" by simp
      then show ?A by blast
    qed
  qed
  ultimately show ?case using Cons.IH by simp
qed

lemma occurs_in_iff: "occurs_in q x \<longleftrightarrow> py_in (map sql_lower q) (map sql_lower x)"
proof -
  have "occurs_in q x \<longleftrightarrow> (\<exists>u w. map sql_lower x = u @ map sql_lower q @ w)"
    (is "?A \<longleftrightarrow> ?B")
  proof
    assume ?A
    then obtain u v w where "x = u @ v @ w" "map sql_lower v = map sql_lower q"
      unfolding occurs_in_def same_ignoring_case_def by blast
    then have "map sql_lower x = map sql_lower u @ map sql_lower q @ map sql_lower w" by simp
    then show ?B by blast
  next
    assume ?B
    then obtain u w where h: "map sql_lower x = u @ map sql_lower q @ w" by blast
    then obtain u' r where 1: "x = u' @ r" "map sql_lower q @ w = map sql_lower r"
      unfolding map_eq_append_conv by blast
    from 1(2) obtain v w' where 2: "r = v @ w'" "map sql_lower q = map sql_lower v"
      unfolding append_eq_map_conv by blast
    from 1(1) 2 have "x = u' @ v @ w' \<and> same_ignoring_case v q"
      by (simp add: same_ignoring_case_def)
    then show ?A
      unfolding occurs_in_def by blast
  qed
  then show ?thesis by (simp add: py_in_iff)
qed

text \<open>The operator on a plain text and a stored value without NUL.\<close>

lemma c_string_id: "CHR 0x00 \<notin> set s \<Longrightarrow> c_string s = s"
  by (auto simp add: c_string_def takeWhile_eq_all_conv)

lemma utf8_length_append: "utf8_length (a @ b) = utf8_length a + utf8_length b"
  by (simp add: utf8_length_def)

lemma like_op_Some:
  assumes "\<not> like_pattern_limit < utf8_length pat"
    and "CHR 0x00 \<notin> set pat" and "CHR 0x00 \<notin> set x"
  shows "like_op (Some x) pat = (if sql_like pat x then SqlTrue else SqlFalse)"
  using assms by (simp add: like_op_def c_string_id)

lemma like_op_contains:
  assumes "plain_text q" and "CHR 0x00 \<notin> set x"
  shows "like_op (Some x) (''%'' @ q @ ''%'') = (if occurs_in q x then SqlTrue else SqlFalse)"
proof -
  from assms(1) have nw: "no_wildcard q" and nul: "CHR 0x00 \<notin> set (''%'' @ q @ ''%'')"
    and len: "\<not> like_pattern_limit < utf8_length (''%'' @ q @ ''%'')"
    by (simp_all add: plain_text_def utf8_length_def)
  from like_op_Some [OF len nul assms(2)] like_contains [OF nw, of x] show ?thesis
    by simp
qed

lemma like_op_null:
  assumes "plain_text q"
  shows "like_op None (''%'' @ q @ ''%'') = SqlNull"
  using assms by (simp add: like_op_def plain_text_def utf8_length_def)

lemma like_op_suffix:
  assumes "plain_text v" and "CHR 0x00 \<notin> set x"
  shows "like_op (Some x) (''%@'' @ v) = (if ends_with x (CHR ''@'' # v) then SqlTrue else SqlFalse)"
proof -
  from assms(1) have nw: "no_wildcard v" and nul: "CHR 0x00 \<notin> set (''%@'' @ v)"
    and len: "\<not> like_pattern_limit < utf8_length (''%@'' @ v)"
    by (simp_all add: plain_text_def utf8_length_def)
  from like_op_Some [OF len nul assms(2)] like_suffix [OF nw, of x] show ?thesis
    by simp
qed

lemma query_term_plain:
  assumes "plain_text q" and "nul_free_row r"
  shows "query_term q r \<noteq> SqlError"
    and "query_term q r = SqlTrue \<longleftrightarrow>
      occurs_in q (first_name r) \<or> occurs_in q (last_name r) \<or> occurs_in q (email r)
        \<or> (\<exists>p. phone r = Some p \<and> occurs_in q p)"
proof -
  from assms(2) have n: "CHR 0x00 \<notin> set (first_name r)" "CHR 0x00 \<notin> set (last_name r)"
      "CHR 0x00 \<notin> set (email r)"
    by (simp_all add: nul_free_row_def)
  note f = like_op_contains [OF assms(1) n(1)] like_op_contains [OF assms(1) n(2)]
    like_op_contains [OF assms(1) n(3)]
  have ph: "like_op (phone r) (''%'' @ q @ ''%'')
      = (case phone r of None \<Rightarrow> SqlNull
         | Some p \<Rightarrow> if occurs_in q p then SqlTrue else SqlFalse)"
  proof (cases "phone r")
    case None
    then show ?thesis by (simp only: like_op_null [OF assms(1)] option.case)
  next
    case (Some p)
    with assms(2) have "CHR 0x00 \<notin> set p" by (simp add: nul_free_row_def)
    from like_op_contains [OF assms(1) this] Some show ?thesis
      by (simp only: option.case)
  qed
  show "query_term q r \<noteq> SqlError"
    unfolding query_term_def Let_def f ph
    by (simp add: sql_or_def split: option.splits)
  show "query_term q r = SqlTrue \<longleftrightarrow>
      occurs_in q (first_name r) \<or> occurs_in q (last_name r) \<or> occurs_in q (email r)
        \<or> (\<exists>p. phone r = Some p \<and> occurs_in q p)"
    unfolding query_term_def Let_def f ph
    by (simp add: sql_or_def split: option.splits)
qed

text \<open>When no term is in error, a row is kept exactly when every term is true.\<close>

lemma where_test_no_error:
  assumes "\<forall>c \<in> set cs. c r \<noteq> SqlError"
  shows "where_test cs r = (if \<forall>c \<in> set cs. c r = SqlTrue then Keep else Skip)"
  using assms by (induction cs) (auto split: sql_bool.splits)

lemma where_terms_plain:
  assumes "q = [] \<or> plain_text q"
    and "case active_filter dm of None \<Rightarrow> True | Some v \<Rightarrow> plain_text v"
    and "nul_free_row r"
  shows "where_test (where_terms q ln dm) r = (if spec_keeps q ln dm r then Keep else Skip)"
proof -
  have q: "(\<forall>c \<in> set (if q \<noteq> [] then [query_term q] else []). c r \<noteq> SqlError)"
    "(\<forall>c \<in> set (if q \<noteq> [] then [query_term q] else []). c r = SqlTrue) \<longleftrightarrow>
      (q = [] \<or> occurs_in q (first_name r) \<or> occurs_in q (last_name r) \<or> occurs_in q (email r)
         \<or> (\<exists>p. phone r = Some p \<and> occurs_in q p))"
    using assms(1) query_term_plain [OF _ assms(3), of q] by auto
  have l: "(\<forall>c \<in> set (case active_filter ln of None \<Rightarrow> [] | Some v \<Rightarrow> [last_name_term v]).
        c r \<noteq> SqlError)"
    "(\<forall>c \<in> set (case active_filter ln of None \<Rightarrow> [] | Some v \<Rightarrow> [last_name_term v]).
        c r = SqlTrue) \<longleftrightarrow>
      (case active_filter ln of None \<Rightarrow> True | Some v \<Rightarrow> last_name r = v)"
    by (auto simp add: last_name_term_def split: option.splits if_splits)
  from assms(3) have e: "CHR 0x00 \<notin> set (email r)" by (simp add: nul_free_row_def)
  have d: "(\<forall>c \<in> set (case active_filter dm of None \<Rightarrow> [] | Some v \<Rightarrow> [email_domain_term v]).
        c r \<noteq> SqlError)"
    "(\<forall>c \<in> set (case active_filter dm of None \<Rightarrow> [] | Some v \<Rightarrow> [email_domain_term v]).
        c r = SqlTrue) \<longleftrightarrow>
      (case active_filter dm of None \<Rightarrow> True | Some v \<Rightarrow> ends_with (email r) (CHR ''@'' # v))"
    using assms(2) like_op_suffix [OF _ e]
    by (auto simp add: email_domain_term_def split: option.splits simp del: append.simps)
  have ne: "\<forall>c \<in> set (where_terms q ln dm). c r \<noteq> SqlError"
    unfolding where_terms_def using q(1) l(1) d(1) by (simp only: set_append ball_Un) simp
  have "(\<forall>c \<in> set (where_terms q ln dm). c r = SqlTrue) \<longleftrightarrow> spec_keeps q ln dm r"
    unfolding where_terms_def spec_keeps_def
    by (simp only: set_append ball_Un q(2) l(2) d(2)) simp
  with where_test_no_error [OF ne] show ?thesis by simp
qed

text \<open>
  So a search with plain texts on a table without NUL characters raises nothing and returns
  the rows the specification names, each once, largest id first.
\<close>

lemma search_patients_plain:
  assumes "q = [] \<or> plain_text q"
    and "case active_filter dm of None \<Rightarrow> True | Some v \<Rightarrow> plain_text v"
    and "\<forall>r \<in> set (rows t). nul_free_row r"
  shows "\<exists>rs. search_patients t q ln dm = Rows rs
     \<and> rs = filter (spec_keeps q ln dm) (get_all_patients t)
     \<and> mset rs = mset (filter (spec_keeps q ln dm) (rows t))
     \<and> sorted_wrt (\<lambda>a b. a \<ge> b) (map pid rs)"
proof -
  let ?terms = "where_terms q ln dm"
  have w: "where_test ?terms r = (if spec_keeps q ln dm r then Keep else Skip)"
    if "r \<in> set (rows t)" for r
    using where_terms_plain [OF assms(1,2)] assms(3) that by blast
  then have nofail: "\<not> list_ex (\<lambda>r. where_test ?terms r = Fail) (rows t)"
    by (auto simp add: list_ex_iff)
  have "filter (\<lambda>r. where_test ?terms r = Keep) (rows t) = filter (spec_keeps q ln dm) (rows t)"
    by (rule filter_cong) (simp_all add: w)
  with nofail have s: "search_patients t q ln dm
      = Rows (order_by_id_desc (filter (spec_keeps q ln dm) (rows t)))"
    by (simp add: search_patients_def)
  show ?thesis
    unfolding s
    by (simp add: filter_order_by_id_desc get_all_patients_def mset_order_by_id_desc
        order_by_id_desc_sorted [of "filter (spec_keeps q ln dm) (rows t)",
          unfolded filter_order_by_id_desc])
qed

text \<open>
  The specification's example: of the rows A (Smith, \<^verbatim>\<open>a@x.com\<close>), B (Smith, \<^verbatim>\<open>b@y.com\<close>)
  and C (Jones, \<^verbatim>\<open>c@x.com\<close>), the search for last name \<^verbatim>\<open>Smith\<close> and domain \<^verbatim>\<open>x.com\<close>
  returns A alone.
\<close>

lemma search_smith_x_com:
  "search_patients smith_jones [] (Some ''Smith'') (Some ''x.com'') = Rows [row_A]"
  by (simp add: search_eval example_defs)

text \<open>A free text too long for the pattern fails the search on any table that has a row.\<close>

lemma search_patients_too_long:
  assumes "like_pattern_limit < utf8_length q + 2" and "rows t \<noteq> []"
  shows "search_patients t q ln dm = Raised_pattern_too_complex"
proof -
  from assms(1) have q: "q \<noteq> []" and len: "like_pattern_limit < utf8_length (''%'' @ q @ ''%'')"
    by (auto simp add: utf8_length_def like_pattern_limit_def)
  have "query_term q r = SqlError" for r
    unfolding query_term_def Let_def like_op_def using len by (simp add: sql_or_def)
  then have "where_test (where_terms q ln dm) r = Fail" for r
    using q by (simp add: where_terms_def)
  with assms(2) show ?thesis
    by (cases "rows t") (simp_all add: search_patients_def)
qed

section \<open>The claims\<close>

subsection \<open>C1: updating an id that is not stored\<close>




subsection \<open>C2: what adding a patient returns\<close>

text \<open>
  C2. The specification has \<open>add\<close> return the id of the new row. \<open>add_patient\<close> returns the
  pair \<^verbatim>\<open>(True, None)\<close>, a success flag that carries no id. On a migrated table, for every
  email that no stored row has, the call succeeds with that pair and stores exactly one new
  row; the row's id is \<open>next_rowid\<close>, larger than every id in the table, and
  \<open>get_patient_by_id\<close> finds a row under it.
\<close>

theorem add_returns_success_flag:
  assumes "has_columns t written_columns" and "em \<notin> email ` set (rows t)"
  shows "snd (add_patient t fn ln addr em ph dob doe) = Return True None
     \<and> map pid (rows (fst (add_patient t fn ln addr em ph dob doe)))
         = map pid (rows t) @ [next_rowid t]
     \<and> (\<forall>r \<in> set (rows t). pid r < next_rowid t)
     \<and> get_patient_by_id (fst (add_patient t fn ln addr em ph dob doe)) (next_rowid t) \<noteq> None"
proof -
  let ?x = "\<lparr>pid = next_rowid t, first_name = fn, last_name = ln, address = addr,
             email = em, phone = ph, date_of_birth = dob, date_of_entry = doe\<rparr>"
  have fresh: "\<forall>r \<in> set (rows t). pid r < next_rowid t"
    by (simp add: next_rowid_fresh)
  then have "\<forall>r \<in> set (rows t). pid r \<noteq> pid ?x" by auto
  from get_appended [OF this, where t = t and n = "next_rowid t"] fresh assms show ?thesis
    by (simp add: add_patient_cases)
qed

theorem add_returns_success_flag_witness:
  "has_columns smith_jones written_columns \<and> ''d@z.org'' \<notin> email ` set (rows smith_jones)
   \<and> snd (add_patient smith_jones ''Dee'' ''Low'' None ''d@z.org'' None None (Some ''2024-03-04''))
       = Return True None
   \<and> map pid (rows (fst (add_patient smith_jones ''Dee'' ''Low'' None ''d@z.org'' None None
         (Some ''2024-03-04'')))) = [1, 2, 3, 4]"
proof -
  have c: "has_columns smith_jones written_columns"
    using has_migrated_columns [of smith_jones] by (simp add: smith_jones_def)
  have a: "''d@z.org'' \<notin> email ` set (rows smith_jones)"
    by (simp add: example_defs)
  have n: "next_rowid smith_jones = 4" "map pid (rows smith_jones) = [1, 2, 3]"
    by (simp_all add: next_rowid_def example_defs)
  from add_returns_success_flag [OF c a, of "''Dee''" "''Low''" None None None "Some ''2024-03-04''"]
    c a n
  show ?thesis by simp
qed

text \<open>
  Two successful calls that store rows under different ids, 1 and 4, return the same value:
  the id is not part of it.
\<close>

theorem add_returns_id_counterexample:
  "snd (add_patient empty_table ''Ann'' ''Smith'' None ''a@x.com'' None None (Some ''2024-03-01''))
       = Return True None
   \<and> map pid (rows (fst (add_patient empty_table ''Ann'' ''Smith'' None ''a@x.com'' None None
         (Some ''2024-03-01'')))) = [1]
   \<and> snd (add_patient smith_jones ''Dee'' ''Low'' None ''d@z.org'' None None (Some ''2024-03-04''))
       = Return True None
   \<and> map pid (rows (fst (add_patient smith_jones ''Dee'' ''Low'' None ''d@z.org'' None None
         (Some ''2024-03-04'')))) = [1, 2, 3, 4]"
proof -
  have c: "has_columns empty_table written_columns" "has_columns smith_jones written_columns"
    using has_migrated_columns [of empty_table] has_migrated_columns [of smith_jones]
    by (simp_all add: empty_table_def smith_jones_def)
  have n: "next_rowid empty_table = 1" "next_rowid smith_jones = 4"
    by (simp_all add: next_rowid_def example_defs)
  show ?thesis
    by (simp add: add_patient_cases c n) (simp add: example_defs)
qed

subsection \<open>C3: the entry date is never null after the migration\<close>

text \<open>
  C3. After the schema step has run (\<open>init_db\<close>, or \<open>migrate_db\<close> on an existing table) no
  stored row has a null \<^verbatim>\<open>date_of_entry\<close>: every row in which it was null, because the column
  did not exist or held \<^verbatim>\<open>NULL\<close>, now has the date of the migration run, and every other
  row keeps its date. The column itself stays nullable, so the invariant is kept by every
  later add and update whose \<^verbatim>\<open>date_of_entry\<close> argument is not \<^verbatim>\<open>None\<close> (the two forms
  check this before they call the store) and by every delete.
\<close>

theorem date_of_entry_never_null:
  "no_null_date_of_entry (init_db today db)
   \<and> no_null_date_of_entry (migrate_db today t)
   \<and> map (\<lambda>r. (pid r, date_of_entry r)) (rows (migrate_db today t)) =
       map (\<lambda>r. (pid r, if ''date_of_entry'' \<in> set (columns t) \<and> date_of_entry r \<noteq> None
                         then date_of_entry r else Some today)) (rows t)
   \<and> (no_null_date_of_entry s \<longrightarrow>
        (doe \<noteq> None \<longrightarrow> no_null_date_of_entry (fst (add_patient s fn ln addr em ph dob doe)))
      \<and> (doe \<noteq> None \<longrightarrow>
           no_null_date_of_entry (fst (update_patient s i fn ln addr em ph dob doe)))
      \<and> no_null_date_of_entry (delete_patient s i))"
  by (simp add: init_db_def no_null_migrate no_null_add no_null_update no_null_delete migrate_rows)

theorem date_of_entry_never_null_witness:
  "no_null_date_of_entry smith_jones \<and> Some ''2024-03-04'' \<noteq> None
   \<and> no_null_date_of_entry (migrate_db ''2024-03-04'' legacy_table)
   \<and> map (\<lambda>r. (pid r, date_of_entry r)) (rows (migrate_db ''2024-03-04'' legacy_table))
       = [(1, Some ''2024-03-04'')]
   \<and> no_null_date_of_entry
       (fst (add_patient smith_jones ''Dee'' ''Low'' None ''d@z.org'' None None (Some ''2024-03-04'')))
   \<and> no_null_date_of_entry
       (fst (update_patient smith_jones 2 ''Dee'' ''Low'' None ''d@z.org'' None None
          (Some ''2024-03-04'')))
   \<and> no_null_date_of_entry (delete_patient smith_jones 2)"
proof -
  have inv: "no_null_date_of_entry smith_jones"
    by (simp add: no_null_date_of_entry_def example_defs)
  have leg: "map (\<lambda>r. (pid r, if ''date_of_entry'' \<in> set (columns legacy_table)
                                  \<and> date_of_entry r \<noteq> None
                               then date_of_entry r else Some ''2024-03-04'')) (rows legacy_table)
       = [(1, Some ''2024-03-04'')]"
    by (simp add: example_defs created_columns_def)
  from date_of_entry_never_null [of "''2024-03-04''" None legacy_table smith_jones
      "Some ''2024-03-04''" "''Dee''" "''Low''" None "''d@z.org''" None None 2] inv leg
  show ?thesis by simp
qed

theorem date_of_entry_null_counterexample:
  "no_null_date_of_entry (init_db ''2024-03-01'' None)
   \<and> \<not> no_null_date_of_entry
         (fst (add_patient (init_db ''2024-03-01'' None) ''Ann'' ''Smith'' None ''a@x.com''
            None None None))"
proof -
  have c: "has_columns empty_table written_columns"
    using has_migrated_columns [of empty_table] by (simp add: empty_table_def)
  show ?thesis
    by (simp add: init_db_None add_patient_cases c no_null_date_of_entry_def)
      (simp add: empty_table_def)
qed

subsection \<open>C4: adding an email that is already stored\<close>

text \<open>
  C4. For every migrated table and every call of \<open>add_patient\<close> whose email is the email of
  a stored row, the call returns \<^verbatim>\<open>(False, "Email already exists.")\<close> and the table is
  unchanged: no row is created.
\<close>

theorem add_duplicate_email:
  assumes "has_columns t written_columns" and "em \<in> email ` set (rows t)"
  shows "add_patient t fn ln addr em ph dob doe =
     (t, Return False (Some ''Email already exists.''))"
  using assms by (simp add: add_patient_cases)

theorem add_duplicate_email_witness:
  "has_columns smith_jones written_columns \<and> ''b@y.com'' \<in> email ` set (rows smith_jones)
   \<and> add_patient smith_jones ''Dee'' ''Low'' None ''b@y.com'' None None (Some ''2024-03-04'')
       = (smith_jones, Return False (Some ''Email already exists.''))"
proof -
  have c: "has_columns smith_jones written_columns"
    using has_migrated_columns [of smith_jones] by (simp add: smith_jones_def)
  have a: "''b@y.com'' \<in> email ` set (rows smith_jones)"
    by (simp add: example_defs)
  from add_duplicate_email [OF c a] c a show ?thesis by simp
qed

subsection \<open>C5: what a search returns\<close>

text \<open>
  C5. The specification has the free text keep a row exactly when it occurs as a substring
  in \<^verbatim>\<open>first_name\<close>, \<^verbatim>\<open>last_name\<close>, \<^verbatim>\<open>email\<close> or \<^verbatim>\<open>phone\<close>. \<open>search_patients\<close> puts
  the text into the \<^verbatim>\<open>LIKE\<close> pattern as it is, so a \<^verbatim>\<open>%\<close> or \<^verbatim>\<open>_\<close> in it is a wildcard:
  the text \<^verbatim>\<open>Sm_th\<close> returns rows B and A, and it occurs in no column of either, in any
  letter case. For texts without those characters the search returns the rows the
  specification names (\<open>search_patients_plain\<close>).
\<close>

theorem search_underscore_is_wildcard:
  "search_patients smith_jones ''Sm_th'' None None = Rows [row_B, row_A]
   \<and> \<not> spec_keeps ''Sm_th'' None None row_A \<and> \<not> spec_keeps ''Sm_th'' None None row_B"
proof -
  have "search_patients smith_jones ''Sm_th'' None None = Rows [row_B, row_A]"
    by (simp add: search_eval example_defs)
  moreover have "\<not> py_in (map sql_lower ''Sm_th'') (map sql_lower ''Ann'')"
    "\<not> py_in (map sql_lower ''Sm_th'') (map sql_lower ''Bob'')"
    "\<not> py_in (map sql_lower ''Sm_th'') (map sql_lower ''Smith'')"
    "\<not> py_in (map sql_lower ''Sm_th'') (map sql_lower ''a@x.com'')"
    "\<not> py_in (map sql_lower ''Sm_th'') (map sql_lower ''b@y.com'')"
    "\<not> py_in (map sql_lower ''Sm_th'') (map sql_lower ''+15551234567'')"
    by (simp_all add: sql_lower_def less_eq_char_def)
  ultimately show ?thesis
    by (simp add: spec_keeps_def occurs_in_iff row_A_def row_B_def)
qed

subsection \<open>C6: the phone validator\<close>

text \<open>
  C6. \<open>is_valid_phone\<close> is meant to accept exactly the strings made of an optional \<^verbatim>\<open>+\<close>
  and 10 to 15 digits, and it accepts every one of them (\<open>is_valid_phone_iff\<close>). But
  \<^verbatim>\<open>$\<close> also matches before a final newline: the ten digits \<^verbatim>\<open>1234567890\<close> followed by
  a newline are accepted, and a string that ends with a newline is not of that shape
  (\<open>newline_not_phone_shape\<close>).
\<close>

theorem phone_trailing_newline_accepted:
  "is_valid_phone (''1234567890'' @ [CHR 0x0A])"
proof -
  have "phone_shape ''1234567890''"
    unfolding phone_shape_def
    by (rule exI [of _ "[]"], rule exI [of _ "''1234567890''"])
      (simp add: in_class_def digit_def less_eq_char_def)
  then show ?thesis
    unfolding is_valid_phone_iff by blast
qed

subsection \<open>C7: the email validator\<close>

text \<open>
  C7. \<open>is_valid_email\<close> is meant to accept exactly the strings of the shape
  \<^verbatim>\<open>local-part@domain.tld\<close>, and it accepts every one of them (\<open>is_valid_email_iff\<close>).
  But \<^verbatim>\<open>$\<close> also matches before a final newline: \<^verbatim>\<open>a@b.co\<close> followed by a newline is
  accepted, and a string that ends with a newline is not of that shape
  (\<open>newline_not_email_shape\<close>).
\<close>

theorem email_trailing_newline_accepted:
  "is_valid_email (''a@b.co'' @ [CHR 0x0A])"
proof -
  have "''a@b.co'' = ''a'' @ ''@'' @ ''b'' @ ''.'' @ ''co''" by simp
  then have "email_shape ''a@b.co''"
    unfolding email_shape_def
    by (intro exI [of _ "''a''"] exI [of _ "''b''"] exI [of _ "''co''"])
      (simp add: in_class_def email_local_def email_domain_def alpha_def upper_az_def lower_az_def
        digit_def single_def less_eq_char_def)
  then show ?thesis
    unfolding is_valid_email_iff by blast
qed

subsection \<open>C8: a row read back after it was added\<close>

text \<open>
  C8. Round trip. Whenever \<open>add_patient\<close> accepts its arguments (it returns
  \<^verbatim>\<open>(True, None)\<close>), the table has gained one row, the row's id was not in use, and
  \<open>get_patient_by_id\<close> with that id returns a record whose \<^verbatim>\<open>first_name\<close>,
  \<^verbatim>\<open>last_name\<close>, \<^verbatim>\<open>address\<close>, \<^verbatim>\<open>email\<close>, \<^verbatim>\<open>phone\<close>, \<^verbatim>\<open>date_of_birth\<close> and
  \<^verbatim>\<open>date_of_entry\<close> are the arguments of the call.
\<close>

theorem add_then_get:
  assumes "add_patient t fn ln addr em ph dob doe = (t', Return True None)"
  shows "rows t' = rows t @ [\<lparr>pid = next_rowid t, first_name = fn, last_name = ln,
             address = addr, email = em, phone = ph, date_of_birth = dob, date_of_entry = doe\<rparr>]
     \<and> next_rowid t \<notin> pid ` set (rows t)
     \<and> get_patient_by_id t' (next_rowid t) =
         Some \<lparr>pid = next_rowid t, first_name = fn, last_name = ln, address = addr,
               email = em, phone = ph, date_of_birth = dob, date_of_entry = doe\<rparr>"
proof -
  let ?x = "\<lparr>pid = next_rowid t, first_name = fn, last_name = ln, address = addr,
             email = em, phone = ph, date_of_birth = dob, date_of_entry = doe\<rparr>"
  from assms have t': "t' = t\<lparr>rows := rows t @ [?x], seq := next_rowid t\<rparr>"
    by (simp add: add_patient_cases split: if_splits)
  have fresh: "\<forall>r \<in> set (rows t). pid r \<noteq> pid ?x"
    using next_rowid_fresh [of _ t] by fastforce
  then have "next_rowid t \<notin> pid ` set (rows t)" by auto
  with get_appended [OF fresh, where t = t and n = "next_rowid t"] t' show ?thesis by simp
qed

theorem add_then_get_witness:
  "add_patient smith_jones ''Dee'' ''Low'' (Some ''4 Mill Rd'') ''d@z.org'' (Some ''5551234567'')
       None (Some ''2024-03-04'')
     = (smith_jones\<lparr>rows := rows smith_jones @
           [\<lparr>pid = 4, first_name = ''Dee'', last_name = ''Low'', address = Some ''4 Mill Rd'',
             email = ''d@z.org'', phone = Some ''5551234567'', date_of_birth = None,
             date_of_entry = Some ''2024-03-04''\<rparr>], seq := 4\<rparr>, Return True None)
   \<and> get_patient_by_id (smith_jones\<lparr>rows := rows smith_jones @
           [\<lparr>pid = 4, first_name = ''Dee'', last_name = ''Low'', address = Some ''4 Mill Rd'',
             email = ''d@z.org'', phone = Some ''5551234567'', date_of_birth = None,
             date_of_entry = Some ''2024-03-04''\<rparr>], seq := 4\<rparr>) 4
     = Some \<lparr>pid = 4, first_name = ''Dee'', last_name = ''Low'', address = Some ''4 Mill Rd'',
             email = ''d@z.org'', phone = Some ''5551234567'', date_of_birth = None,
             date_of_entry = Some ''2024-03-04''\<rparr>"
proof -
  let ?t' = "smith_jones\<lparr>rows := rows smith_jones @
           [\<lparr>pid = 4, first_name = ''Dee'', last_name = ''Low'', address = Some ''4 Mill Rd'',
             email = ''d@z.org'', phone = Some ''5551234567'', date_of_birth = None,
             date_of_entry = Some ''2024-03-04''\<rparr>], seq := 4\<rparr>"
  have c: "has_columns smith_jones written_columns"
    using has_migrated_columns [of smith_jones] by (simp add: smith_jones_def)
  have a: "''d@z.org'' \<notin> email ` set (rows smith_jones)"
    by (simp add: example_defs)
  have n: "next_rowid smith_jones = 4"
    by (simp add: next_rowid_def example_defs)
  have added: "add_patient smith_jones ''Dee'' ''Low'' (Some ''4 Mill Rd'') ''d@z.org''
      (Some ''5551234567'') None (Some ''2024-03-04'') = (?t', Return True None)"
    by (simp add: add_patient_cases c a n)
  from add_then_get [OF added] added n show ?thesis by simp
qed

subsection \<open>C9: the list of email domains\<close>

text \<open>
  C9. The specification has the list hold, for every stored email, the substring that
  follows its \<^verbatim>\<open>@\<close>. \<open>get_all_email_domains\<close> takes the second piece of the email split
  at \<^verbatim>\<open>@\<close>. With the email \<^verbatim>\<open>a@b@c\<close>, which \<open>add_patient\<close> stores, the list is \<^verbatim>\<open>b\<close>,
  while \<^verbatim>\<open>b@c\<close> follows the \<^verbatim>\<open>@\<close>; and the domain filter finds no row for the listed
  \<^verbatim>\<open>b\<close>, though it finds the row for \<^verbatim>\<open>b@c\<close>. On a table whose emails all have exactly one
  \<^verbatim>\<open>@\<close> the list is the one specified (\<open>single_at_domains\<close>).
\<close>

theorem email_domain_two_at_signs:
  "add_patient empty_table ''Ann'' ''Smith'' None ''a@b@c'' None None (Some ''2024-03-01'')
       = (two_at_table, Return True None)
   \<and> get_all_email_domains two_at_table = Some [''b'']
   \<and> after_at ''a@b@c'' = ''b@c''
   \<and> search_patients two_at_table [] None (Some ''b'') = Rows []
   \<and> search_patients two_at_table [] None (Some ''b@c'') = Rows (rows two_at_table)"
proof -
  have c: "has_columns empty_table written_columns"
    using has_migrated_columns [of empty_table] by (simp add: empty_table_def)
  have "add_patient empty_table ''Ann'' ''Smith'' None ''a@b@c'' None None (Some ''2024-03-01'')
       = (two_at_table, Return True None)"
    by (simp add: add_patient_cases c)
      (simp add: empty_table_def two_at_table_def row_A_def next_rowid_def)
  moreover have "get_all_email_domains two_at_table = Some [''b'']"
    by (simp add: get_all_email_domains_eq two_at_table_def row_A_def add_domain_def domain_of_def
        after_at_def)
  moreover have "after_at ''a@b@c'' = ''b@c''"
    by (simp add: after_at_def)
  moreover have "search_patients two_at_table [] None (Some ''b'') = Rows []"
    by (simp add: search_eval two_at_table_def row_A_def)
  moreover have "search_patients two_at_table [] None (Some ''b@c'') = Rows (rows two_at_table)"
    by (simp add: search_eval two_at_table_def row_A_def)
  ultimately show ?thesis by simp
qed

subsection \<open>C10: a search with no filter lists every row\<close>

text \<open>
  C10. For every table, a search with an empty query and both drop-down filters at the
  \<^verbatim>\<open>"All"\<close> entry, or left at their default \<^verbatim>\<open>None\<close>, raises nothing and returns the same
  sequence of rows as \<open>get_all_patients\<close>; and that sequence holds every stored row
  exactly once, the ids descending.
\<close>

theorem search_all_is_list_all:
  "search_patients t [] (Some ''All'') (Some ''All'') = Rows (get_all_patients t)
   \<and> search_patients t [] None None = Rows (get_all_patients t)
   \<and> mset (get_all_patients t) = mset (rows t)
   \<and> sorted_wrt (\<lambda>a b. a \<ge> b) (map pid (get_all_patients t))"
  by (simp add: search_no_filter active_filter_def get_all_patients_def mset_order_by_id_desc
      order_by_id_desc_sorted)

theorem search_all_is_list_all_witness:
  "search_patients smith_jones [] (Some ''All'') (Some ''All'') = Rows [row_C, row_B, row_A]
   \<and> search_patients smith_jones [] None None = Rows [row_C, row_B, row_A]
   \<and> get_all_patients smith_jones = [row_C, row_B, row_A]"
proof -
  have g: "get_all_patients smith_jones = [row_C, row_B, row_A]"
    by (simp add: get_all_patients_def order_by_id_desc_def example_defs)
  from search_all_is_list_all [of smith_jones] g show ?thesis by simp
qed

end
